theory Spec2Isabelle
  imports Main "HOL-Library.Word"
begin

section \<open>Machine types of the Go source\<close>

text \<open>
  Go's \<open>int\<close> is a 64-bit two's complement integer on the platforms the binary is built
  for, \<open>uint64\<close> and \<open>uint32\<close> are unsigned; all three wrap around on \<open>++\<close>.
  Comparisons of \<open>int\<close> values are signed (\<open>\<le>s\<close>). A datagram is a list of bytes.
  \<open>time.Time\<close> is abstracted to a clock reading, the zero time being 0.
\<close>

type_synonym go_int = "64 word"
type_synonym uint64 = "64 word"
type_synonym uint32 = "32 word"
type_synonym bytes = "8 word list"
type_synonym time = nat

section \<open>backend/backend.go\<close>

record Backend =
  Address :: string
  Healthy :: bool
  ConsecutiveFails :: go_int
  ConsecutiveSuccess :: go_int
  LastCheck :: time
  LastFail :: time
  TotalQueries :: uint64
  TotalFailures :: uint64

text \<open>\<open>NewBackend\<close>: every field not named has Go's zero value.\<close>

definition NewBackend :: "string \<Rightarrow> Backend" where
  "NewBackend address =
     \<lparr>Address = address, Healthy = True, ConsecutiveFails = 0, ConsecutiveSuccess = 0,
      LastCheck = 0, LastFail = 0, TotalQueries = 0, TotalFailures = 0\<rparr>"

definition IsHealthy :: "Backend \<Rightarrow> bool" where
  "IsHealthy b = Healthy b"

definition MarkQueryAttempt :: "Backend \<Rightarrow> Backend" where
  "MarkQueryAttempt b = b\<lparr>TotalQueries := TotalQueries b + 1\<rparr>"

definition MarkFailure :: "time \<Rightarrow> Backend \<Rightarrow> Backend" where
  "MarkFailure now b = b\<lparr>TotalFailures := TotalFailures b + 1, LastFail := now\<rparr>"

text \<open>
  \<open>UpdateHealth\<close> stores the given value in \<open>Healthy\<close>; what else it does is write a
  log line when the value changed. Nothing in the repository calls it.
\<close>

definition UpdateHealth :: "Backend \<Rightarrow> bool \<Rightarrow> Backend" where
  "UpdateHealth b healthy = b\<lparr>Healthy := healthy\<rparr>"

text \<open>
  \<open>RecordHealthCheck\<close> returns the updated backend and the two results
  \<open>(healthChanged, b.Healthy)\<close>; \<open>healthChanged\<close> is a named result and starts false.
\<close>

definition RecordHealthCheck ::
  "time \<Rightarrow> Backend \<Rightarrow> bool \<Rightarrow> go_int \<Rightarrow> go_int \<Rightarrow> Backend \<times> bool \<times> bool" where
  "RecordHealthCheck now b0 success failThreshold successThreshold =
     (let b = b0\<lparr>LastCheck := now\<rparr> in
      if success then
        (let b = b\<lparr>ConsecutiveSuccess := ConsecutiveSuccess b + 1\<rparr>;
             b = b\<lparr>ConsecutiveFails := 0\<rparr>
         in if \<not> Healthy b \<and> successThreshold \<le>s ConsecutiveSuccess b
            then (b\<lparr>Healthy := True\<rparr>, True, True)
            else (b, False, Healthy b))
      else
        (let b = b\<lparr>ConsecutiveFails := ConsecutiveFails b + 1\<rparr>;
             b = b\<lparr>ConsecutiveSuccess := 0\<rparr>;
             b = b\<lparr>LastFail := now\<rparr>
         in if Healthy b \<and> failThreshold \<le>s ConsecutiveFails b
            then (b\<lparr>Healthy := False\<rparr>, True, False)
            else (b, False, Healthy b)))"

text \<open>
  A sequence of health-check recordings on one backend, as the health monitor issues them
  with the thresholds of its configuration: each element is the clock reading of the call
  and the probe's outcome. \<open>check_run\<close> is the backend after the calls, \<open>check_flags\<close> the
  \<open>healthChanged\<close> results in order.
\<close>

fun check_run :: "go_int \<Rightarrow> go_int \<Rightarrow> Backend \<Rightarrow> (time \<times> bool) list \<Rightarrow> Backend" where
  "check_run ft st b [] = b"
| "check_run ft st b ((now, success) # cs) =
     check_run ft st (fst (RecordHealthCheck now b success ft st)) cs"

fun check_flags :: "go_int \<Rightarrow> go_int \<Rightarrow> Backend \<Rightarrow> (time \<times> bool) list \<Rightarrow> bool list" where
  "check_flags ft st b [] = []"
| "check_flags ft st b ((now, success) # cs) =
     (case RecordHealthCheck now b success ft st of
        (b', changed, newHealth) \<Rightarrow> changed # check_flags ft st b' cs)"

section \<open>The network and the DNS library, as seen by the backend\<close>

text \<open>
  One UDP exchange with a backend, step by step as \<open>ForwardQuery\<close> and \<open>HealthCheck\<close>
  perform it: \<open>net.DialTimeout\<close>, \<open>conn.SetDeadline\<close>, \<open>conn.Write\<close>, \<open>conn.Read\<close>.
  Each of the first three steps either fails or not; the read yields the datagram that
  arrived before the deadline, or fails (\<open>None\<close>: timeout or socket error). The network
  is a parameter of the model: it answers for an address, a timeout and the datagram sent.
\<close>

record exchange =
  dial_err :: bool
  deadline_err :: bool
  write_err :: bool
  read_result :: "bytes option"

type_synonym network = "string \<Rightarrow> nat \<Rightarrow> bytes \<Rightarrow> exchange"

datatype forward_error = ConnectFailed | SetDeadlineFailed | SendFailed | ReadFailed

text \<open>
  \<open>ForwardQuery\<close>: the read buffer has 4096 bytes, a longer datagram is cut to it.
  The result is the updated backend and either the error or the reply bytes.
\<close>

definition ForwardQuery ::
  "network \<Rightarrow> time \<Rightarrow> Backend \<Rightarrow> bytes \<Rightarrow> nat \<Rightarrow> Backend \<times> (forward_error + bytes)" where
  "ForwardQuery net now b0 query tmo =
     (let b = MarkQueryAttempt b0;
          x = net (Address b) tmo query
      in if dial_err x then (MarkFailure now b, Inl ConnectFailed)
         else if deadline_err x then (MarkFailure now b, Inl SetDeadlineFailed)
         else if write_err x then (MarkFailure now b, Inl SendFailed)
         else (case read_result x of
                 None \<Rightarrow> (MarkFailure now b, Inl ReadFailed)
               | Some buffer \<Rightarrow> (b, Inr (take 4096 buffer))))"

text \<open>
  The DNS library (github.com/miekg/dns) is not part of the repository; the three
  operations \<open>HealthCheck\<close> uses are parameters. \<open>Pack\<close> stands for building the question
  for a name and a type with recursion desired and packing it; \<open>Unpack\<close> parses a datagram,
  \<open>None\<close> being the library's error. Of a message only the response code is read.
  The numeric constants are the library's (RFC 1035 values).
\<close>

record dns_msg =
  Rcode :: int

record dns_lib =
  Fqdn :: "string \<Rightarrow> string"
  Pack :: "string \<Rightarrow> 16 word \<Rightarrow> bytes option"
  Unpack :: "bytes \<Rightarrow> dns_msg option"

definition TypeA :: "16 word" where "TypeA = 1"
definition TypeNS :: "16 word" where "TypeNS = 2"
definition TypeAAAA :: "16 word" where "TypeAAAA = 28"
definition TypeANY :: "16 word" where "TypeANY = 255"
definition RcodeSuccess :: int where "RcodeSuccess = 0"
definition RcodeNameError :: int where "RcodeNameError = 3"

datatype probe_error =
  PackFailed | ProbeConnectFailed | ProbeSetDeadlineFailed | ProbeSendFailed
  | ProbeReadFailed | InvalidResponse | ErrorResponse int

text \<open>
  \<open>HealthCheck\<close> returns Go's \<open>error\<close>: \<open>None\<close> is \<open>nil\<close>. It does not touch the backend.
  \<open>qtype_of\<close> is its \<open>switch queryType\<close>.
\<close>

definition qtype_of :: "string \<Rightarrow> 16 word" where
  "qtype_of queryType =
     (if queryType = ''A'' then TypeA
      else if queryType = ''AAAA'' then TypeAAAA
      else if queryType = ''NS'' then TypeNS
      else if queryType = ''ANY'' then TypeANY
      else TypeNS)"

definition HealthCheck ::
  "dns_lib \<Rightarrow> network \<Rightarrow> Backend \<Rightarrow> string \<Rightarrow> string \<Rightarrow> nat \<Rightarrow> probe_error option" where
  "HealthCheck lib net b queryName queryType tmo =
     (let qtype = qtype_of queryType
      in case Pack lib (Fqdn lib queryName) qtype of
           None \<Rightarrow> Some PackFailed
         | Some query \<Rightarrow>
            (let x = net (Address b) tmo query
             in if dial_err x then Some ProbeConnectFailed
                else if deadline_err x then Some ProbeSetDeadlineFailed
                else if write_err x then Some ProbeSendFailed
                else (case read_result x of
                        None \<Rightarrow> Some ProbeReadFailed
                      | Some buffer \<Rightarrow>
                         (case Unpack lib (take 4096 buffer) of
                            None \<Rightarrow> Some InvalidResponse
                          | Some response \<Rightarrow>
                             if Rcode response \<noteq> RcodeSuccess \<and> Rcode response \<noteq> RcodeNameError
                             then Some (ErrorResponse (Rcode response))
                             else None))))"

text \<open>
  The methods of \<open>*Backend\<close>, all eight of them, as calls with their arguments, and the
  effect of a call on the backend it is made on. \<open>IsHealthy\<close>, \<open>Stats\<close> and
  \<open>HealthCheck\<close> only read the backend.
\<close>

datatype backend_call =
    CallIsHealthy
  | CallMarkQueryAttempt
  | CallMarkFailure time
  | is_UpdateHealth: CallUpdateHealth bool
  | is_RecordHealthCheck: CallRecordHealthCheck time bool go_int go_int
  | CallStats
  | CallForwardQuery network time bytes nat
  | CallHealthCheck dns_lib network string string nat

fun call_effect :: "backend_call \<Rightarrow> Backend \<Rightarrow> Backend" where
  "call_effect CallIsHealthy b = b"
| "call_effect CallMarkQueryAttempt b = MarkQueryAttempt b"
| "call_effect (CallMarkFailure now) b = MarkFailure now b"
| "call_effect (CallUpdateHealth healthy) b = UpdateHealth b healthy"
| "call_effect (CallRecordHealthCheck now success failThreshold successThreshold) b =
     fst (RecordHealthCheck now b success failThreshold successThreshold)"
| "call_effect CallStats b = b"
| "call_effect (CallForwardQuery net now query tmo) b = fst (ForwardQuery net now b query tmo)"
| "call_effect (CallHealthCheck lib net queryName queryType tmo) b = b"

section \<open>The load balancer\<close>

text \<open>
  The load balancer holds pointers to its backends; the model keeps the backend objects in
  the list \<open>backends\<close> and names a backend by its position there, so that a selected backend
  is an index and \<open>ForwardQuery\<close> on it updates the list at that index. The configuration
  is the part of \<open>config.Config\<close> that \<open>New\<close> reads.
\<close>

record Config =
  cfg_Backends :: "string list"
  cfg_Timeout :: nat
  cfg_FailBehavior :: string

record LoadBalancer =
  backends :: "Backend list"
  currentIndex :: uint32
  timeout :: nat
  failBehavior :: string

definition New :: "Config \<Rightarrow> LoadBalancer" where
  "New cfg = \<lparr>backends = map NewBackend (cfg_Backends cfg), currentIndex = 0,
              timeout = cfg_Timeout cfg, failBehavior = cfg_FailBehavior cfg\<rparr>"

text \<open>
  \<open>selectBackend\<close>. The loop \<open>for i := 0; i < maxAttempts; i++\<close> is \<open>selectLoop\<close>; each
  round adds 1 to the cursor (\<open>atomic.AddUint32\<close> returns the new value, wrapping at
  \<open>2 ^ 32\<close>) and takes it modulo \<open>uint32(len(lb.backends))\<close>. That conversion truncates, and
  Go panics on a remainder by zero. The result is the cursor after the call, the indices
  whose health was read, in order, and the outcome: a panic, \<open>nil\<close> (\<open>None\<close>) or the
  selected backend's index. The index \<open>idx\<close> is below the truncated length, hence in range.
\<close>

datatype panic = DivideByZero

function selectLoop ::
  "Backend list \<Rightarrow> nat \<Rightarrow> nat \<Rightarrow> uint32 \<Rightarrow> uint32 \<times> nat list \<times> (panic + nat option)" where
  "selectLoop bs maxAttempts i cur =
     (if i < maxAttempts then
        (let cur' = cur + 1;
             n32 = (of_nat (length bs) :: uint32)
         in if n32 = 0 then (cur', [], Inl DivideByZero)
            else (let idx = unat (cur' mod n32)
                  in if IsHealthy (bs ! idx) then (cur', [idx], Inr (Some idx))
                     else (case selectLoop bs maxAttempts (i + 1) cur' of
                             (c, probed, r) \<Rightarrow> (c, idx # probed, r))))
      else (cur, [], Inr None))"
  by pat_completeness auto
termination
  by (relation "measure (\<lambda>(bs, maxAttempts, i, cur). maxAttempts - i)") auto

declare selectLoop.simps [simp del]

definition selectBackend :: "LoadBalancer \<Rightarrow> LoadBalancer \<times> nat list \<times> (panic + nat option)" where
  "selectBackend lb =
     (if length (backends lb) = 0 then (lb, [], Inr None)
      else (case selectLoop (backends lb) (length (backends lb)) 0 (currentIndex lb) of
              (c, probed, r) \<Rightarrow> (lb\<lparr>currentIndex := c\<rparr>, probed, r)))"

text \<open>
  \<open>handleQuery\<close>. What one request does that can be observed: the backend
  \<open>ForwardQuery\<close> was called on (\<open>forwarded_to\<close>, \<open>None\<close> when the query was dropped) and
  the datagram written to the client with \<open>WriteToUDP\<close> (\<open>client_reply\<close>, \<open>None\<close> when
  nothing was written). Log lines are not modelled.
\<close>

record outcome =
  forwarded_to :: "nat option"
  client_reply :: "bytes option"

definition handleQuery ::
  "network \<Rightarrow> time \<Rightarrow> LoadBalancer \<Rightarrow> bytes \<Rightarrow> panic + (LoadBalancer \<times> outcome)" where
  "handleQuery net now lb0 query =
     (case selectBackend lb0 of
        (lb, probed, Inl p) \<Rightarrow> Inl p
      | (lb, probed, Inr sel) \<Rightarrow>
         (let backend =
                (case sel of
                   Some i \<Rightarrow> Some i
                 | None \<Rightarrow>
                    if failBehavior lb = ''closed'' then None
                    else if length (backends lb) > 0 then Some 0
                    else None)
          in case backend of
               None \<Rightarrow> Inr (lb, \<lparr>forwarded_to = None, client_reply = None\<rparr>)
             | Some i \<Rightarrow>
                (case ForwardQuery net now (backends lb ! i) query (timeout lb) of
                   (b', Inl err) \<Rightarrow>
                     Inr (lb\<lparr>backends := (backends lb)[i := b']\<rparr>,
                          \<lparr>forwarded_to = Some i, client_reply = None\<rparr>)
                 | (b', Inr response) \<Rightarrow>
                     Inr (lb\<lparr>backends := (backends lb)[i := b']\<rparr>,
                          \<lparr>forwarded_to = Some i, client_reply = Some response\<rparr>))))"

text \<open>
  Requests handled one after the other, each to completion: a request is the network's
  behaviour and the clock at that moment, and the datagram received.
\<close>

fun serve ::
  "LoadBalancer \<Rightarrow> (network \<times> time \<times> bytes) list \<Rightarrow> panic + (LoadBalancer \<times> outcome list)" where
  "serve lb [] = Inr (lb, [])"
| "serve lb ((net, now, query) # rs) =
     (case handleQuery net now lb query of
        Inl p \<Rightarrow> Inl p
      | Inr (lb', out) \<Rightarrow>
         (case serve lb' rs of
            Inl p \<Rightarrow> Inl p
          | Inr (lb'', outs) \<Rightarrow> Inr (lb'', out # outs)))"

text \<open>
  A network in which no backend can be reached (every dial fails), for concrete runs.
\<close>

definition unreachable :: network where
  "unreachable address tmo query =
     \<lparr>dial_err = True, deadline_err = False, write_err = False, read_result = None\<rparr>"

section \<open>The health state machine\<close>

lemma RecordHealthCheck_success:
  "RecordHealthCheck now b True ft st =
     (b\<lparr>LastCheck := now, ConsecutiveSuccess := ConsecutiveSuccess b + 1, ConsecutiveFails := 0,
        Healthy := Healthy b \<or> st \<le>s ConsecutiveSuccess b + 1\<rparr>,
      \<not> Healthy b \<and> st \<le>s ConsecutiveSuccess b + 1,
      Healthy b \<or> st \<le>s ConsecutiveSuccess b + 1)"
  by (cases "Healthy b") (simp_all add: RecordHealthCheck_def Let_def)

lemma RecordHealthCheck_failure:
  "RecordHealthCheck now b False ft st =
     (b\<lparr>LastCheck := now, ConsecutiveFails := ConsecutiveFails b + 1, ConsecutiveSuccess := 0,
        LastFail := now, Healthy := Healthy b \<and> \<not> ft \<le>s ConsecutiveFails b + 1\<rparr>,
      Healthy b \<and> ft \<le>s ConsecutiveFails b + 1,
      Healthy b \<and> \<not> ft \<le>s ConsecutiveFails b + 1)"
  by (cases "Healthy b") (simp_all add: RecordHealthCheck_def Let_def)

lemma check_run_append:
  "check_run ft st b (xs @ ys) = check_run ft st (check_run ft st b xs) ys"
  by (induction xs arbitrary: b) auto

lemma RecordHealthCheck_counters:
  "ConsecutiveFails (fst (RecordHealthCheck now b success ft st)) =
     (if success then 0 else ConsecutiveFails b + 1)"
  "ConsecutiveSuccess (fst (RecordHealthCheck now b success ft st)) =
     (if success then ConsecutiveSuccess b + 1 else 0)"
  by (cases success; simp add: RecordHealthCheck_success RecordHealthCheck_failure)+

lemma RecordHealthCheck_Healthy:
  "Healthy (fst (RecordHealthCheck now b success ft st)) =
     (if success then Healthy b \<or> st \<le>s ConsecutiveSuccess b + 1
      else Healthy b \<and> \<not> ft \<le>s ConsecutiveFails b + 1)"
  by (cases success; simp add: RecordHealthCheck_success RecordHealthCheck_failure)

lemma RecordHealthCheck_results:
  "fst (snd (RecordHealthCheck now b success ft st)) =
     (Healthy (fst (RecordHealthCheck now b success ft st)) \<noteq> Healthy b)"
  "snd (snd (RecordHealthCheck now b success ft st)) =
     Healthy (fst (RecordHealthCheck now b success ft st))"
  by (cases success; auto simp add: RecordHealthCheck_success RecordHealthCheck_failure)+

subsection \<open>The two consecutive counters\<close>

lemma check_run_one_zero:
  "ConsecutiveFails b = 0 \<or> ConsecutiveSuccess b = 0 \<Longrightarrow>
   ConsecutiveFails (check_run ft st b cs) = 0 \<or> ConsecutiveSuccess (check_run ft st b cs) = 0"
proof (induction cs arbitrary: b)
  case Nil
  then show ?case by simp
next
  case (Cons c cs)
  obtain now success where c: "c = (now, success)" by (cases c)
  show ?case unfolding c check_run.simps
    by (rule Cons.IH) (simp add: RecordHealthCheck_counters)
qed

text \<open>
  Claim C10. On a backend whose two consecutive counters are zero (as \<open>NewBackend\<close> leaves
  them), after any sequence of \<open>RecordHealthCheck\<close> calls at least one of
  \<open>ConsecutiveFails\<close> and \<open>ConsecutiveSuccess\<close> is zero, so they are never both positive;
  and every further call adds one to the counter of its outcome and sets the other to zero.
\<close>

theorem counters_never_both_positive:
  assumes "ConsecutiveFails b = 0" and "ConsecutiveSuccess b = 0"
  shows "(ConsecutiveFails (check_run ft st b cs) = 0 \<or> ConsecutiveSuccess (check_run ft st b cs) = 0)
    \<and> \<not> (0 <s ConsecutiveFails (check_run ft st b cs) \<and> 0 <s ConsecutiveSuccess (check_run ft st b cs))
    \<and> (let b1 = check_run ft st b cs;
            b2 = check_run ft st b (cs @ [(now, success)])
        in if success
           then ConsecutiveSuccess b2 = ConsecutiveSuccess b1 + 1 \<and> ConsecutiveFails b2 = 0
           else ConsecutiveFails b2 = ConsecutiveFails b1 + 1 \<and> ConsecutiveSuccess b2 = 0)"
proof -
  have z: "ConsecutiveFails (check_run ft st b cs) = 0 \<or> ConsecutiveSuccess (check_run ft st b cs) = 0"
    using assms by (intro check_run_one_zero) simp
  then have "\<not> (0 <s ConsecutiveFails (check_run ft st b cs) \<and> 0 <s ConsecutiveSuccess (check_run ft st b cs))"
    by auto
  moreover have "let b1 = check_run ft st b cs;
            b2 = check_run ft st b (cs @ [(now, success)])
        in if success
           then ConsecutiveSuccess b2 = ConsecutiveSuccess b1 + 1 \<and> ConsecutiveFails b2 = 0
           else ConsecutiveFails b2 = ConsecutiveFails b1 + 1 \<and> ConsecutiveSuccess b2 = 0"
    by (simp add: check_run_append RecordHealthCheck_counters Let_def)
  ultimately show ?thesis using z by blast
qed

theorem counters_never_both_positive_witness:
  "ConsecutiveFails (NewBackend ''10.0.0.1:53'') = 0 \<and>
   ConsecutiveSuccess (NewBackend ''10.0.0.1:53'') = 0 \<and>
   (ConsecutiveFails (check_run 3 2 (NewBackend ''10.0.0.1:53'') [(1, False), (2, False), (3, True)]) = 0 \<or>
    ConsecutiveSuccess (check_run 3 2 (NewBackend ''10.0.0.1:53'') [(1, False), (2, False), (3, True)]) = 0)"
  using counters_never_both_positive
    [of "NewBackend ''10.0.0.1:53''" 3 2 "[(1, False), (2, False), (3, True)]" 4 True]
  by (simp add: NewBackend_def)

subsection \<open>The changed flag\<close>

lemma check_flags_repeat:
  "Healthy b = success \<Longrightarrow>
   \<forall>f \<in> set (check_flags ft st b (map (\<lambda>t. (t, success)) ts)). \<not> f"
proof (induction ts arbitrary: b)
  case Nil
  then show ?case by simp
next
  case (Cons t ts)
  obtain b' changed newHealth where r: "RecordHealthCheck t b success ft st = (b', changed, newHealth)"
    by (cases "RecordHealthCheck t b success ft st")
  have h: "Healthy b' = success" and c: "\<not> changed"
    using Cons.prems r RecordHealthCheck_Healthy [of t b success ft st]
      RecordHealthCheck_results(1) [of t b success ft st]
    by (auto split: if_splits)
  show ?case using Cons.IH [OF h] c r by simp
qed

text \<open>
  Claim C5. At every call of a sequence of \<open>RecordHealthCheck\<close> calls on a backend, the
  first result \<open>healthChanged\<close> is true exactly when the call flipped \<open>Healthy\<close>, and the
  second result is \<open>Healthy\<close> after the call. When a call reported a change, repeating its
  outcome any number of times afterwards reports no change at any of the repeated calls.
\<close>

theorem changed_exactly_at_flips:
  "case RecordHealthCheck now (check_run ft st b pre) success ft st of
     (b2, changed, newHealth) \<Rightarrow>
       changed = (Healthy b2 \<noteq> Healthy (check_run ft st b pre)) \<and>
       newHealth = Healthy b2 \<and>
       (changed \<longrightarrow>
          (\<forall>ts. \<forall>f \<in> set (check_flags ft st b2 (map (\<lambda>t. (t, success)) ts)). \<not> f))"
proof -
  define b1 where "b1 = check_run ft st b pre"
  obtain b2 changed newHealth where r: "RecordHealthCheck now b1 success ft st = (b2, changed, newHealth)"
    by (cases "RecordHealthCheck now b1 success ft st")
  have c: "changed = (Healthy b2 \<noteq> Healthy b1)" and n: "newHealth = Healthy b2"
    using RecordHealthCheck_results [of now b1 success ft st] r by simp_all
  have "Healthy b2 = success" if changed
    using that c r RecordHealthCheck_Healthy [of now b1 success ft st]
    by (auto split: if_splits)
  then have "changed \<longrightarrow> (\<forall>ts. \<forall>f \<in> set (check_flags ft st b2 (map (\<lambda>t. (t, success)) ts)). \<not> f)"
    using check_flags_repeat by blast
  with c n r show ?thesis by (simp add: b1_def)
qed

theorem changed_exactly_at_flips_witness:
  "case RecordHealthCheck 2 (check_run 1 2 (NewBackend ''10.0.0.1:53'') [(1, True)]) False 1 2 of
     (b2, changed, newHealth) \<Rightarrow>
       changed \<and> \<not> newHealth \<and>
       check_flags 1 2 b2 (map (\<lambda>t. (t, False)) [3, 4]) = [False, False]"
  using changed_exactly_at_flips
    [where now = 2 and ft = 1 and st = 2 and b = "NewBackend ''10.0.0.1:53''"
       and pre = "[(1, True)]" and success = False]
  by (simp add: RecordHealthCheck_failure RecordHealthCheck_success NewBackend_def)

subsection \<open>Threshold crossings\<close>

lemma fails_run_counter:
  "ConsecutiveFails (check_run ft st b (map (\<lambda>t. (t, False)) ts)) =
     ConsecutiveFails b + of_nat (length ts)"
  by (induction ts arbitrary: b) (simp_all add: RecordHealthCheck_counters)

lemma fails_run_snoc:
  "ts \<noteq> [] \<Longrightarrow>
   \<exists>b1 t. check_run ft st b (map (\<lambda>t. (t, False)) ts) = fst (RecordHealthCheck t b1 False ft st)
      \<and> ConsecutiveFails b1 + 1 = ConsecutiveFails b + of_nat (length ts)"
proof (induction ts rule: rev_induct)
  case Nil
  then show ?case by simp
next
  case (snoc t ts)
  show ?case
    apply (rule exI [of _ "check_run ft st b (map (\<lambda>t. (t, False)) ts)"])
    apply (rule exI [of _ t])
    apply (simp add: check_run_append fails_run_counter)
    done
qed

lemma after_failures:
  assumes "ts \<noteq> []"
  shows "ConsecutiveSuccess (check_run ft st b (map (\<lambda>t. (t, False)) ts)) = 0"
proof -
  from fails_run_snoc [OF assms, of ft st b]
  obtain b1 t where e: "check_run ft st b (map (\<lambda>t. (t, False)) ts) = fst (RecordHealthCheck t b1 False ft st)"
    by auto
  show ?thesis unfolding e by (simp add: RecordHealthCheck_counters)
qed

lemma unhealthy_after_threshold_failures:
  assumes "0 <s ft" and "ConsecutiveFails b = 0" and "length ts = nat (sint ft)"
  shows "\<not> Healthy (check_run ft st b (map (\<lambda>t. (t, False)) ts))"
proof -
  from assms have pos: "0 < sint ft" by (simp add: word_sless_alt)
  then have ne: "ts \<noteq> []" using assms(3) by auto
  have "of_nat (length ts) = ft"
    using pos assms(3) by simp
  with fails_run_snoc [OF ne, of ft st b] assms(2)
  obtain b1 t where e: "check_run ft st b (map (\<lambda>t. (t, False)) ts) = fst (RecordHealthCheck t b1 False ft st)"
    and c: "ConsecutiveFails b1 + 1 = ft" by auto
  show ?thesis
    unfolding e by (simp add: RecordHealthCheck_Healthy c)
qed

lemma single_success_no_flip:
  assumes "1 <s st" and "ConsecutiveSuccess b1 = 0"
  shows "Healthy (fst (RecordHealthCheck now b1 True ft st)) = Healthy b1"
proof -
  from assms(1) have "\<not> st \<le>s 1"
    by (simp add: word_sless_alt word_sle_eq)
  then show ?thesis
    by (simp add: RecordHealthCheck_Healthy assms(2))
qed

text \<open>
  Claim C1, as amended. At every call of a sequence of \<open>RecordHealthCheck\<close> calls,
  \<open>Healthy\<close> goes from false to true only if the call is a success after which
  \<open>ConsecutiveSuccess\<close> is at least the success threshold, and from true to false only if
  the call is a failure after which \<open>ConsecutiveFails\<close> is at least the failure threshold;
  at every other call \<open>Healthy\<close> is unchanged while the counter of the outcome grows by one.
  When the success threshold is greater than one, a single success after one or more
  failures leaves \<open>Healthy\<close> as it was; in particular, on a backend whose failure counter
  was zero, after \<open>failThreshold\<close> consecutive failures (a positive threshold) the
  backend is unhealthy and stays unhealthy after a single success.
\<close>

theorem health_flips_only_at_thresholds:
  "(let b1 = check_run ft st b pre;
        b2 = fst (RecordHealthCheck now b1 success ft st)
    in (\<not> Healthy b1 \<and> Healthy b2 \<longrightarrow> success \<and> st \<le>s ConsecutiveSuccess b2) \<and>
       (Healthy b1 \<and> \<not> Healthy b2 \<longrightarrow> \<not> success \<and> ft \<le>s ConsecutiveFails b2) \<and>
       (\<not> (success \<and> st \<le>s ConsecutiveSuccess b2) \<and> \<not> (\<not> success \<and> ft \<le>s ConsecutiveFails b2)
          \<longrightarrow> Healthy b2 = Healthy b1) \<and>
       ConsecutiveSuccess b2 = (if success then ConsecutiveSuccess b1 + 1 else 0) \<and>
       ConsecutiveFails b2 = (if success then 0 else ConsecutiveFails b1 + 1)) \<and>
   (1 <s st \<and> ts \<noteq> [] \<longrightarrow>
      (let b1 = check_run ft st b (map (\<lambda>t. (t, False)) ts);
           b2 = fst (RecordHealthCheck now b1 True ft st)
       in Healthy b2 = Healthy b1 \<and>
          (0 <s ft \<and> ConsecutiveFails b = 0 \<and> length ts = nat (sint ft) \<longrightarrow>
             \<not> Healthy b1 \<and> \<not> Healthy b2)))"
proof -
  define b1 where "b1 = check_run ft st b pre"
  define b2 where "b2 = fst (RecordHealthCheck now b1 success ft st)"
  have h: "Healthy b2 = (if success then Healthy b1 \<or> st \<le>s ConsecutiveSuccess b2
                         else Healthy b1 \<and> \<not> ft \<le>s ConsecutiveFails b2)"
    and cs: "ConsecutiveSuccess b2 = (if success then ConsecutiveSuccess b1 + 1 else 0)"
    and cf: "ConsecutiveFails b2 = (if success then 0 else ConsecutiveFails b1 + 1)"
    unfolding b2_def by (simp_all add: RecordHealthCheck_Healthy RecordHealthCheck_counters)
  have step: "(\<not> Healthy b1 \<and> Healthy b2 \<longrightarrow> success \<and> st \<le>s ConsecutiveSuccess b2) \<and>
       (Healthy b1 \<and> \<not> Healthy b2 \<longrightarrow> \<not> success \<and> ft \<le>s ConsecutiveFails b2) \<and>
       (\<not> (success \<and> st \<le>s ConsecutiveSuccess b2) \<and> \<not> (\<not> success \<and> ft \<le>s ConsecutiveFails b2)
          \<longrightarrow> Healthy b2 = Healthy b1)"
    using h by (cases success) auto
  have part: "1 <s st \<and> ts \<noteq> [] \<longrightarrow>
      (let b1 = check_run ft st b (map (\<lambda>t. (t, False)) ts);
           b2 = fst (RecordHealthCheck now b1 True ft st)
       in Healthy b2 = Healthy b1 \<and>
          (0 <s ft \<and> ConsecutiveFails b = 0 \<and> length ts = nat (sint ft) \<longrightarrow>
             \<not> Healthy b1 \<and> \<not> Healthy b2))"
  proof (intro impI, elim conjE)
    assume st: "1 <s st" and ne: "ts \<noteq> []"
    define c1 where "c1 = check_run ft st b (map (\<lambda>t. (t, False)) ts)"
    have keep: "Healthy (fst (RecordHealthCheck now c1 True ft st)) = Healthy c1"
      unfolding c1_def by (rule single_success_no_flip [OF st after_failures [OF ne]])
    have "\<not> Healthy c1" if "0 <s ft" "ConsecutiveFails b = 0" "length ts = nat (sint ft)"
      unfolding c1_def using that by (rule unhealthy_after_threshold_failures)
    with keep show "let b1 = check_run ft st b (map (\<lambda>t. (t, False)) ts);
           b2 = fst (RecordHealthCheck now b1 True ft st)
       in Healthy b2 = Healthy b1 \<and>
          (0 <s ft \<and> ConsecutiveFails b = 0 \<and> length ts = nat (sint ft) \<longrightarrow>
             \<not> Healthy b1 \<and> \<not> Healthy b2)"
      by (simp add: Let_def c1_def)
  qed
  from step cs cf part show ?thesis
    unfolding Let_def b1_def [symmetric] b2_def [symmetric] by blast
qed

theorem health_flips_only_at_thresholds_witness:
  "(let b1 = check_run 3 2 (NewBackend ''10.0.0.1:53'') [(1, False), (2, False), (3, False), (4, True)];
        b2 = fst (RecordHealthCheck 5 b1 True 3 2)
    in \<not> Healthy b1 \<and> Healthy b2 \<and> (2 :: go_int) \<le>s ConsecutiveSuccess b2) \<and>
   (let b1 = check_run 3 2 (NewBackend ''10.0.0.1:53'') [(1, False), (2, False)];
        b2 = fst (RecordHealthCheck 5 b1 False 3 2)
    in Healthy b1 \<and> \<not> Healthy b2 \<and> (3 :: go_int) \<le>s ConsecutiveFails b2) \<and>
   (1 :: go_int) <s 2 \<and> [1, 2, 3 :: nat] \<noteq> [] \<and> (0 :: go_int) <s 3 \<and>
   ConsecutiveFails (NewBackend ''10.0.0.1:53'') = 0 \<and>
   length [1, 2, 3 :: nat] = nat (sint (3 :: go_int)) \<and>
   (let b1 = check_run 3 2 (NewBackend ''10.0.0.1:53'') (map (\<lambda>t. (t, False)) [1, 2, 3]);
        b2 = fst (RecordHealthCheck 5 b1 True 3 2)
    in \<not> Healthy b1 \<and> \<not> Healthy b2)"
  using health_flips_only_at_thresholds
    [where ft = 3 and st = 2 and b = "NewBackend ''10.0.0.1:53''" and now = 5 and success = True
       and pre = "[(1, False), (2, False), (3, False), (4, True)]" and ts = "[1, 2, 3]"]
    health_flips_only_at_thresholds
    [where ft = 3 and st = 2 and b = "NewBackend ''10.0.0.1:53''" and now = 5 and success = False
       and pre = "[(1, False), (2, False)]" and ts = "[1, 2, 3]"]
  by (simp add: RecordHealthCheck_failure RecordHealthCheck_success NewBackend_def
      word_sle_eq word_sless_alt)

text \<open>
  With both thresholds 1, which the configuration accepts, one failure marks a new backend
  unhealthy and the single success that follows marks it healthy again.
\<close>

theorem single_success_flips_counterexample:
  "\<not> Healthy (check_run 1 1 (NewBackend ''10.0.0.1:53'') [(1, False)]) \<and>
   Healthy (check_run 1 1 (NewBackend ''10.0.0.1:53'') [(1, False), (2, True)])"
  by (simp add: RecordHealthCheck_failure RecordHealthCheck_success NewBackend_def)

section \<open>Forwarding and probing\<close>

lemma ForwardQuery_cases:
  "ForwardQuery net now b query tmo =
     (let x = net (Address b) tmo query
      in if dial_err x \<or> deadline_err x \<or> write_err x \<or> read_result x = None
         then (b\<lparr>TotalQueries := TotalQueries b + 1, TotalFailures := TotalFailures b + 1,
                  LastFail := now\<rparr>,
               Inl (if dial_err x then ConnectFailed
                    else if deadline_err x then SetDeadlineFailed
                    else if write_err x then SendFailed else ReadFailed))
         else (b\<lparr>TotalQueries := TotalQueries b + 1\<rparr>, Inr (take 4096 (the (read_result x)))))"
  by (auto simp add: ForwardQuery_def MarkQueryAttempt_def MarkFailure_def Let_def
      split: option.splits)

text \<open>
  Claim C7. Every \<open>ForwardQuery\<close> call adds exactly one to the backend's \<open>TotalQueries\<close>,
  whatever the outcome (the counters are \<open>uint64\<close>: adding one is the successor unless the
  counter holds its largest value). The network is asked for one exchange only. If the
  connect, set-deadline, write or read step fails, the call also adds exactly one to
  \<open>TotalFailures\<close> and returns an error (the connect error when the address refuses the
  connection); otherwise \<open>TotalFailures\<close> is unchanged and the reply bytes read are returned.
\<close>

theorem forward_counts_once:
  "case ForwardQuery net now b query tmo of
     (b', r) \<Rightarrow>
       TotalQueries b' = TotalQueries b + 1 \<and>
       (TotalQueries b \<noteq> - 1 \<longrightarrow> unat (TotalQueries b') = unat (TotalQueries b) + 1) \<and>
       (let x = net (Address b) tmo query
        in if dial_err x \<or> deadline_err x \<or> write_err x \<or> read_result x = None
           then TotalFailures b' = TotalFailures b + 1 \<and>
                (TotalFailures b \<noteq> - 1 \<longrightarrow> unat (TotalFailures b') = unat (TotalFailures b) + 1) \<and>
                (\<exists>err. r = Inl err) \<and> (dial_err x \<longrightarrow> r = Inl ConnectFailed)
           else TotalFailures b' = TotalFailures b \<and>
                r = Inr (take 4096 (the (read_result x))))"
proof -
  have u: "unat (w + 1) = unat w + 1" if "w \<noteq> - 1" for w :: uint64
    using that by (metis Suc_eq_plus1 add.commute add_eq_0_iff unatSuc)
  show ?thesis
    by (simp add: ForwardQuery_cases Let_def u)
qed

theorem forward_counts_once_witness:
  "case ForwardQuery (\<lambda>address tmo query. \<lparr>dial_err = True, deadline_err = False,
          write_err = False, read_result = None\<rparr>) 7 (NewBackend ''10.0.0.1:53'') [1, 2] 3 of
     (b', r) \<Rightarrow>
       TotalQueries (NewBackend ''10.0.0.1:53'') \<noteq> - 1 \<and>
       TotalFailures (NewBackend ''10.0.0.1:53'') \<noteq> - 1 \<and>
       unat (TotalQueries b') = 1 \<and> unat (TotalFailures b') = 1 \<and> r = Inl ConnectFailed"
  using forward_counts_once
    [where net = "\<lambda>address tmo query. \<lparr>dial_err = True, deadline_err = False,
          write_err = False, read_result = None\<rparr>"
       and now = 7 and b = "NewBackend ''10.0.0.1:53''" and query = "[1, 2]" and tmo = 3]
  by (simp add: NewBackend_def split: prod.splits)

text \<open>
  Claim C8. \<open>HealthCheck\<close> returns \<open>nil\<close> exactly when the probe query could be packed
  and sent, a reply was read before the deadline, the reply unpacks as a DNS message, and
  its response code is \<open>RcodeSuccess\<close> or \<open>RcodeNameError\<close> (NXDOMAIN). Every other
  response code, an unparseable reply, and any connect, set-deadline, write or read
  (timeout) error is an error result.
\<close>

theorem health_check_success_iff:
  "HealthCheck lib net b queryName queryType tmo = None \<longleftrightarrow>
     (\<exists>query buffer response.
        Pack lib (Fqdn lib queryName) (qtype_of queryType) = Some query \<and>
        \<not> dial_err (net (Address b) tmo query) \<and>
        \<not> deadline_err (net (Address b) tmo query) \<and>
        \<not> write_err (net (Address b) tmo query) \<and>
        read_result (net (Address b) tmo query) = Some buffer \<and>
        Unpack lib (take 4096 buffer) = Some response \<and>
        (Rcode response = RcodeSuccess \<or> Rcode response = RcodeNameError))"
  by (auto simp add: HealthCheck_def Let_def split: option.splits)

section \<open>The selector\<close>

lemma len32_nonzero:
  "0 < n \<Longrightarrow> n < 2 ^ 32 \<Longrightarrow> (of_nat n :: uint32) \<noteq> 0"
proof
  assume n: "0 < n" "n < 2 ^ 32" and z: "(of_nat n :: uint32) = 0"
  have "unat (of_nat n :: uint32) = n"
    using n by (simp add: unat_of_nat)
  with z n show False by simp
qed

lemma idx_in_range:
  assumes "(of_nat n :: uint32) \<noteq> 0"
  shows "unat (c mod (of_nat n :: uint32)) < n"
proof -
  have "0 < unat (of_nat n :: uint32)"
    using assms by (simp add: unat_gt_0)
  then have "unat c mod unat (of_nat n :: uint32) < unat (of_nat n :: uint32)"
    by simp
  moreover have "unat (of_nat n :: uint32) \<le> n"
    by (simp add: unat_of_nat)
  ultimately show ?thesis
    by (simp add: unat_mod)
qed

lemma selectLoop_sound:
  "selectLoop bs m i cur = (c, probed, r) \<Longrightarrow>
   (\<forall>j \<in> set probed. j < length bs) \<and> length probed \<le> m - i \<and>
   (\<forall>k. r = Inr (Some k) \<longrightarrow> k < length bs \<and> Healthy (bs ! k)) \<and>
   (r = Inr None \<longrightarrow> (\<forall>j \<in> set probed. \<not> Healthy (bs ! j))) \<and>
   ((of_nat (length bs) :: uint32) \<noteq> 0 \<longrightarrow> (\<forall>p. r \<noteq> Inl p))"
proof (induction bs m i cur arbitrary: c probed r rule: selectLoop.induct)
  case (1 bs m i cur)
  show ?case
  proof (cases "i < m")
    case False
    with "1.prems" show ?thesis by (auto simp add: selectLoop.simps [of bs m i cur])
  next
    case lt: True
    show ?thesis
    proof (cases "(of_nat (length bs) :: uint32) = 0")
      case True
      with lt "1.prems" show ?thesis by (auto simp add: selectLoop.simps [of bs m i cur])
    next
      case nz: False
      define idx where "idx = unat ((cur + 1) mod (of_nat (length bs) :: uint32))"
      have r: "idx < length bs" unfolding idx_def by (rule idx_in_range [OF nz])
      show ?thesis
      proof (cases "IsHealthy (bs ! idx)")
        case True
        with lt nz r "1.prems" show ?thesis
          by (auto simp add: selectLoop.simps [of bs m i cur] Let_def idx_def IsHealthy_def)
      next
        case False
        obtain c' probed' r' where rec: "selectLoop bs m (i + 1) (cur + 1) = (c', probed', r')"
          by (cases "selectLoop bs m (i + 1) (cur + 1)")
        have ih: "(\<forall>j \<in> set probed'. j < length bs) \<and> length probed' \<le> m - (i + 1) \<and>
          (\<forall>k. r' = Inr (Some k) \<longrightarrow> k < length bs \<and> Healthy (bs ! k)) \<and>
          (r' = Inr None \<longrightarrow> (\<forall>j \<in> set probed'. \<not> Healthy (bs ! j))) \<and>
          ((of_nat (length bs) :: uint32) \<noteq> 0 \<longrightarrow> (\<forall>p. r' \<noteq> Inl p))"
          using "1.IH" [OF lt refl refl nz, of idx c' probed' r'] False rec
          by (simp add: idx_def)
        from lt nz False rec "1.prems"
        have e: "c = c'" "probed = idx # probed'" "r = r'"
          by (simp_all add: selectLoop.simps [of bs m i cur] Let_def idx_def)
        show ?thesis using ih r False lt unfolding e
          by (auto simp add: IsHealthy_def)
      qed
    qed
  qed
qed

subsection \<open>Calls during which the cursor does not wrap\<close>

text \<open>
  As long as the cursor stays below \<open>2 ^ 32\<close> during a call, the indices read are the
  rotation \<open>(cursor + 1 + k) mod n\<close>: they are pairwise distinct, and the call returns
  \<open>nil\<close> exactly when every backend is unhealthy.
\<close>

lemma rotation_inj:
  assumes "j < n" "k < n" "(a + j) mod n = (a + k) mod (n :: nat)"
  shows "j = k"
proof -
  have aux: "x = y" if "x \<le> y" "y < n" "(a + x) mod n = (a + y) mod n" for x y
  proof -
    have "a + x \<le> a + y" using that(1) by simp
    then have "n dvd (a + y) - (a + x)"
      using that(3) mod_eq_dvd_iff_nat [of "a + x" "a + y" n] by metis
    then have "n dvd y - x" by simp
    moreover have "y - x < n" using that(2) by simp
    ultimately have "y - x = 0" by (meson dvd_imp_le not_less zero_less_iff_neq_zero)
    with that(1) show ?thesis by simp
  qed
  show ?thesis
  proof (cases "j \<le> k")
    case True
    with aux [of j k] assms show ?thesis by simp
  next
    case False
    with aux [of k j] assms show ?thesis by simp
  qed
qed

lemma rotation_distinct:
  "m \<le> n \<Longrightarrow> distinct (map (\<lambda>k. (a + k) mod n) [0..<m])"
proof -
  assume le: "m \<le> n"
  have "inj_on (\<lambda>k. (a + k) mod n) (set [0..<m])"
  proof (rule inj_onI)
    fix x y assume "x \<in> set [0..<m]" "y \<in> set [0..<m]" "(a + x) mod n = (a + y) mod n"
    with le show "x = y" by (intro rotation_inj [of x n y a]) simp_all
  qed
  then show ?thesis by (simp add: distinct_map)
qed

lemma rotation_set:
  assumes "0 < n"
  shows "set (map (\<lambda>k. (a + k) mod n) [0..<n]) = {0..<n}"
proof (rule card_subset_eq)
  show "finite {0..<n}" by simp
  show "set (map (\<lambda>k. (a + k) mod n) [0..<n]) \<subseteq> {0..<n}"
    using assms by auto
  have "card (set (map (\<lambda>k. (a + k) mod n) [0..<n])) = length (map (\<lambda>k. (a + k) mod n) [0..<n])"
    by (rule distinct_card) (rule rotation_distinct, simp)
  then show "card (set (map (\<lambda>k. (a + k) mod n) [0..<n])) = card {0..<n}" by simp
qed

lemma selectLoop_no_wrap:
  assumes "0 < length bs" and "length bs < 2 ^ 32" and "unat cur + (m - i) < 2 ^ 32"
    and "selectLoop bs m i cur = (c, probed, r)"
  shows "probed = map (\<lambda>k. (unat cur + 1 + k) mod length bs) [0..<length probed] \<and>
         (r = Inr None \<longrightarrow> length probed = m - i)"
  using assms
proof (induction bs m i cur arbitrary: c probed r rule: selectLoop.induct)
  case (1 bs m i cur)
  have nz: "(of_nat (length bs) :: uint32) \<noteq> 0"
    using "1.prems"(1,2) by (rule len32_nonzero)
  have un: "unat (of_nat (length bs) :: uint32) = length bs"
    using "1.prems"(2) by (simp add: unat_of_nat)
  show ?case
  proof (cases "i < m")
    case False
    with "1.prems"(4) show ?thesis by (auto simp add: selectLoop.simps [of bs m i cur])
  next
    case lt: True
    then have small: "unat cur + 1 < 2 ^ 32" using "1.prems"(3) by simp
    then have uc: "unat (cur + 1) = unat cur + 1"
      by (simp add: unat_word_ariths)
    define idx where "idx = unat ((cur + 1) mod (of_nat (length bs) :: uint32))"
    have idx: "idx = (unat cur + 1) mod length bs"
      unfolding idx_def by (simp add: unat_mod un uc)
    show ?thesis
    proof (cases "IsHealthy (bs ! idx)")
      case True
      with lt nz "1.prems"(4) have "probed = [idx]" "r = Inr (Some idx)"
        by (auto simp add: selectLoop.simps [of bs m i cur] Let_def idx_def)
      then show ?thesis by (simp add: idx)
    next
      case False
      obtain c' probed' r' where rec: "selectLoop bs m (i + 1) (cur + 1) = (c', probed', r')"
        by (cases "selectLoop bs m (i + 1) (cur + 1)")
      have b: "unat (cur + 1) + (m - (i + 1)) < 2 ^ 32"
        using "1.prems"(3) lt uc by simp
      have ih: "probed' = map (\<lambda>k. (unat (cur + 1) + 1 + k) mod length bs) [0..<length probed'] \<and>
         (r' = Inr None \<longrightarrow> length probed' = m - (i + 1))"
        using "1.IH" [OF lt refl refl nz, of idx c' probed' r'] False rec "1.prems"(1,2) b
        by (simp add: idx_def)
      from lt nz False rec "1.prems"(4)
      have e: "probed = idx # probed'" "r = r'"
        by (simp_all add: selectLoop.simps [of bs m i cur] Let_def idx_def)
      have "map (\<lambda>k. (unat cur + 1 + k) mod length bs) [0..<length probed]
          = idx # map (\<lambda>k. (unat cur + 1 + Suc k) mod length bs) [0..<length probed']"
        unfolding e by (simp add: upt_rec [of 0] map_Suc_upt [symmetric] idx del: upt_Suc)
      also have "map (\<lambda>k. (unat cur + 1 + Suc k) mod length bs) [0..<length probed'] = probed'"
        using ih by (simp add: uc)
      finally have p: "probed = map (\<lambda>k. (unat cur + 1 + k) mod length bs) [0..<length probed]"
        unfolding e(1) [symmetric] by simp
      have "r = Inr None \<longrightarrow> length probed = m - i"
        using ih lt unfolding e by auto
      with p show ?thesis by blast
    qed
  qed
qed

lemma selectBackend_without_wraparound:
  assumes "unat (currentIndex lb) + length (backends lb) < 2 ^ 32"
    and "selectBackend lb = (lb', probed, r)"
  shows "distinct probed \<and> (r = Inr None \<longleftrightarrow> (\<forall>b \<in> set (backends lb). \<not> Healthy b))"
proof (cases "length (backends lb) = 0")
  case True
  with assms(2) show ?thesis by (auto simp add: selectBackend_def)
next
  case False
  define n where "n = length (backends lb)"
  have n: "0 < n" "n < 2 ^ 32" using False assms(1) by (simp_all add: n_def)
  obtain c where e: "selectLoop (backends lb) n 0 (currentIndex lb) = (c, probed, r)"
    using assms(2) False by (auto simp add: selectBackend_def n_def split: prod.splits)
  have w: "unat (currentIndex lb) + (n - 0) < 2 ^ 32" using assms(1) by (simp add: n_def)
  note s = selectLoop_sound [OF e]
  from selectLoop_no_wrap [OF n [unfolded n_def] w e]
  have p: "probed = map (\<lambda>k. (unat (currentIndex lb) + 1 + k) mod n) [0..<length probed]"
    and full: "r = Inr None \<longrightarrow> length probed = n" by (simp_all add: n_def)
  have le: "length probed \<le> n" using s by simp
  have d: "distinct probed"
    by (subst p) (rule rotation_distinct [OF le])
  have "\<forall>b \<in> set (backends lb). \<not> Healthy b" if "r = Inr None"
  proof
    fix b assume "b \<in> set (backends lb)"
    then obtain j where j: "j < n" "b = backends lb ! j"
      by (auto simp add: in_set_conv_nth n_def)
    from that full p have "set probed = {0..<n}"
      using rotation_set [OF n(1), of "unat (currentIndex lb) + 1"] by simp
    with j have "j \<in> set probed" by simp
    with s that j show "\<not> Healthy b" by blast
  qed
  moreover have "r = Inr None" if a: "\<forall>b \<in> set (backends lb). \<not> Healthy b"
  proof (cases r)
    case (Inl p)
    with s len32_nonzero [OF n [unfolded n_def]] show ?thesis by blast
  next
    case (Inr sel)
    show ?thesis
    proof (cases sel)
      case None
      with Inr show ?thesis by simp
    next
      case (Some k)
      with Inr s have "k < length (backends lb) \<and> Healthy (backends lb ! k)" by blast
      with a nth_mem [of k "backends lb"] show ?thesis by blast
    qed
  qed
  ultimately show ?thesis using d by blast
qed

subsection \<open>Calls during which the cursor wraps\<close>

text \<open>
  Claim C2, at the input where the code departs from it. With three backends of which only
  the third is healthy and the cursor at \<open>2 ^ 32 - 2\<close>, the three attempts read the
  cursor values \<open>2 ^ 32 - 1\<close>, \<open>0\<close> and \<open>1\<close>, that is the indices 0, 0 and 1:
  \<open>selectBackend\<close> returns \<open>nil\<close> although a backend is healthy.
\<close>

theorem select_misses_healthy_backend_at_wraparound:
  "selectBackend
     \<lparr>backends = [(NewBackend ''10.0.0.1:53'')\<lparr>Healthy := False\<rparr>,
                  (NewBackend ''10.0.0.2:53'')\<lparr>Healthy := False\<rparr>,
                  NewBackend ''10.0.0.3:53''],
      currentIndex = 4294967294, timeout = 3, failBehavior = ''closed''\<rparr>
   = (\<lparr>backends = [(NewBackend ''10.0.0.1:53'')\<lparr>Healthy := False\<rparr>,
                  (NewBackend ''10.0.0.2:53'')\<lparr>Healthy := False\<rparr>,
                  NewBackend ''10.0.0.3:53''],
      currentIndex = 1, timeout = 3, failBehavior = ''closed''\<rparr>, [0, 0, 1], Inr None)
   \<and> IsHealthy (NewBackend ''10.0.0.3:53'')"
  by (simp add: selectBackend_def selectLoop.simps IsHealthy_def NewBackend_def Let_def)

text \<open>
  Claim C3, at the input where the code departs from it. With three unhealthy backends and
  the cursor at \<open>2 ^ 32 - 2\<close>, one \<open>selectBackend\<close> call makes three attempts, but the
  indices it reads are 0, 0 and 1: the first backend is tried twice and the third is not
  tried, because \<open>2 ^ 32\<close> is not a multiple of 3.
\<close>

theorem select_probes_repeat_at_wraparound:
  "(let probed = fst (snd (selectBackend
       \<lparr>backends = [(NewBackend ''10.0.0.1:53'')\<lparr>Healthy := False\<rparr>,
                    (NewBackend ''10.0.0.2:53'')\<lparr>Healthy := False\<rparr>,
                    (NewBackend ''10.0.0.3:53'')\<lparr>Healthy := False\<rparr>],
        currentIndex = 4294967294, timeout = 3, failBehavior = ''closed''\<rparr>))
    in probed = [0, 0, 1] \<and> \<not> distinct probed \<and> 2 \<notin> set probed)"
  by (simp add: selectBackend_def selectLoop.simps IsHealthy_def NewBackend_def Let_def)

section \<open>Handling requests\<close>

lemma selectBackend_frame:
  "selectBackend lb = (lb', probed, r) \<Longrightarrow>
   backends lb' = backends lb \<and> timeout lb' = timeout lb \<and> failBehavior lb' = failBehavior lb"
  by (auto simp add: selectBackend_def split: if_splits prod.splits)

lemma selectBackend_no_panic:
  assumes "length (backends lb) < 2 ^ 32"
  shows "snd (snd (selectBackend lb)) \<noteq> Inl p"
proof (cases "length (backends lb) = 0")
  case True
  then show ?thesis by (simp add: selectBackend_def)
next
  case False
  then have nz: "(of_nat (length (backends lb)) :: uint32) \<noteq> 0"
    using assms by (intro len32_nonzero) simp_all
  obtain c probed r where
    e: "selectLoop (backends lb) (length (backends lb)) 0 (currentIndex lb) = (c, probed, r)"
    by (cases "selectLoop (backends lb) (length (backends lb)) 0 (currentIndex lb)")
  from selectLoop_sound [OF e] nz have "r \<noteq> Inl p" by blast
  with False e show ?thesis by (simp add: selectBackend_def)
qed

lemma ForwardQuery_Healthy:
  "Healthy (fst (ForwardQuery net now b query tmo)) = Healthy b"
  by (simp add: ForwardQuery_cases Let_def)

lemma map_Healthy_update:
  "Healthy b' = Healthy (bs ! i) \<Longrightarrow> map Healthy (bs[i := b']) = map Healthy bs"
  by (cases "i < length bs") (simp_all add: map_update list_update_same_conv list_update_beyond)

lemma handleQuery_frame:
  assumes "handleQuery net now lb query = Inr (lb', out)"
  shows "map Healthy (backends lb') = map Healthy (backends lb) \<and>
         timeout lb' = timeout lb \<and> failBehavior lb' = failBehavior lb"
proof -
  obtain lb1 probed r where s: "selectBackend lb = (lb1, probed, r)"
    by (cases "selectBackend lb")
  note f = selectBackend_frame [OF s]
  have u: "map Healthy ((backends lb)[i := b']) = map Healthy (backends lb)"
    if "ForwardQuery net now (backends lb ! i) query tmo = (b', e)" for i tmo b' e
    using ForwardQuery_Healthy [of net now "backends lb ! i" query tmo] that
    by (intro map_Healthy_update) simp
  show ?thesis
    using assms s f u
    apply (simp add: handleQuery_def Let_def split: sum.splits option.splits prod.splits if_splits)
    apply (auto split: sum.splits option.splits prod.splits if_splits)
    done
qed

lemma handleQuery_no_panic:
  assumes "length (backends lb) < 2 ^ 32"
  shows "\<exists>lb' out. handleQuery net now lb query = Inr (lb', out)"
proof -
  obtain lb1 probed r where s: "selectBackend lb = (lb1, probed, r)"
    by (cases "selectBackend lb")
  from selectBackend_no_panic [OF assms] s obtain sel where r: "r = Inr sel"
    by (cases r) auto
  show ?thesis
    by (simp add: handleQuery_def s r Let_def split: option.splits prod.splits sum.splits)
qed

lemma serve_frame:
  assumes "length (backends lb) < 2 ^ 32"
  shows "\<exists>lb' outs. serve lb reqs = Inr (lb', outs) \<and> length outs = length reqs \<and>
           map Healthy (backends lb') = map Healthy (backends lb)"
  using assms
proof (induction reqs arbitrary: lb)
  case Nil
  then show ?case by simp
next
  case (Cons rq reqs)
  obtain net now query where rq: "rq = (net, now, query)" by (cases rq)
  from handleQuery_no_panic [OF Cons.prems] obtain lb1 out
    where h: "handleQuery net now lb query = Inr (lb1, out)" by blast
  from handleQuery_frame [OF h] have m: "map Healthy (backends lb1) = map Healthy (backends lb)"
    by simp
  then have "length (backends lb1) = length (backends lb)"
    by (rule map_eq_imp_length_eq)
  with Cons.prems have "length (backends lb1) < 2 ^ 32" by simp
  from Cons.IH [OF this] obtain lb2 outs where
    s: "serve lb1 reqs = Inr (lb2, outs)" "length outs = length reqs"
       "map Healthy (backends lb2) = map Healthy (backends lb1)" by blast
  show ?case unfolding rq using h s m by simp
qed

lemma call_effect_Healthy:
  "Healthy (call_effect c b) \<noteq> Healthy b \<Longrightarrow> is_UpdateHealth c \<or> is_RecordHealthCheck c"
  by (cases c) (simp_all add: MarkQueryAttempt_def MarkFailure_def ForwardQuery_Healthy)

text \<open>
  Claim C9, as amended. A backend made by \<open>NewBackend\<close> is healthy, and none of
  \<open>MarkQueryAttempt\<close>, \<open>MarkFailure\<close> and \<open>ForwardQuery\<close> changes \<open>Healthy\<close>. Of the
  methods of a backend, a call that changes \<open>Healthy\<close> is a call of \<open>RecordHealthCheck\<close>
  or of \<open>UpdateHealth\<close>, which sets the flag to its argument and which nothing in the
  repository calls. Hence requests alone, whatever the network does to them, leave the
  health of every backend of a load balancer as it was; and after any sequence of requests
  on a load balancer made by \<open>New\<close>, with no health check recorded, every backend is
  still healthy, that is eligible for selection. (The bound on the number of backends
  excludes the remainder by zero of \<open>selectBackend\<close>.)
\<close>

theorem forwarding_never_changes_health:
  "Healthy (NewBackend address) \<and>
   Healthy (MarkQueryAttempt b) = Healthy b \<and>
   Healthy (MarkFailure now b) = Healthy b \<and>
   Healthy (fst (ForwardQuery net now b query tmo)) = Healthy b \<and>
   (Healthy (call_effect c b) \<noteq> Healthy b \<longrightarrow> is_UpdateHealth c \<or> is_RecordHealthCheck c) \<and>
   Healthy (UpdateHealth b healthy) = healthy \<and>
   (length (backends lb) < 2 ^ 32 \<longrightarrow>
      (\<exists>lb' outs. serve lb reqs = Inr (lb', outs) \<and>
         map Healthy (backends lb') = map Healthy (backends lb))) \<and>
   (length (cfg_Backends cfg) < 2 ^ 32 \<longrightarrow>
      (\<exists>lb' outs. serve (New cfg) reqs = Inr (lb', outs) \<and>
         length (backends lb') = length (cfg_Backends cfg) \<and>
         (\<forall>b \<in> set (backends lb'). IsHealthy b)))"
proof -
  have a: "Healthy (NewBackend address)" by (simp add: NewBackend_def)
  have b: "Healthy (MarkQueryAttempt b) = Healthy b" by (simp add: MarkQueryAttempt_def)
  have c: "Healthy (MarkFailure now b) = Healthy b" by (simp add: MarkFailure_def)
  have d: "Healthy (fst (ForwardQuery net now b query tmo)) = Healthy b"
    by (rule ForwardQuery_Healthy)
  have x: "Healthy (call_effect c b) \<noteq> Healthy b \<longrightarrow> is_UpdateHealth c \<or> is_RecordHealthCheck c"
    using call_effect_Healthy by blast
  have u: "Healthy (UpdateHealth b healthy) = healthy" by (simp add: UpdateHealth_def)
  have e: "\<exists>lb' outs. serve lb reqs = Inr (lb', outs) \<and>
         map Healthy (backends lb') = map Healthy (backends lb)"
    if "length (backends lb) < 2 ^ 32"
    using serve_frame [OF that, of reqs] by blast
  have f: "\<exists>lb' outs. serve (New cfg) reqs = Inr (lb', outs) \<and>
         length (backends lb') = length (cfg_Backends cfg) \<and>
         (\<forall>b \<in> set (backends lb'). IsHealthy b)"
    if l: "length (cfg_Backends cfg) < 2 ^ 32"
  proof -
    have "length (backends (New cfg)) < 2 ^ 32" using l by (simp add: New_def)
    from serve_frame [OF this, of reqs] obtain lb' outs where
      s: "serve (New cfg) reqs = Inr (lb', outs)"
      and m: "map Healthy (backends lb') = map Healthy (backends (New cfg))" by blast
    have n: "map Healthy (backends (New cfg)) = replicate (length (cfg_Backends cfg)) True"
      by (simp add: New_def NewBackend_def comp_def map_replicate_const)
    from m n have len: "length (backends lb') = length (cfg_Backends cfg)"
      by (metis length_map length_replicate)
    have "\<forall>b \<in> set (backends lb'). IsHealthy b"
    proof
      fix x assume "x \<in> set (backends lb')"
      then have "Healthy x \<in> set (map Healthy (backends lb'))" by simp
      then show "IsHealthy x" unfolding m n by (simp add: IsHealthy_def)
    qed
    with s len show ?thesis by blast
  qed
  from a b c d x u e f show ?thesis by blast
qed

theorem forwarding_never_changes_health_witness:
  "length (cfg_Backends \<lparr>cfg_Backends = [''192.168.1.2:53'', ''192.168.1.3:53''], cfg_Timeout = 3,
       cfg_FailBehavior = ''closed''\<rparr>) < 2 ^ 32 \<and>
   (\<exists>lb' outs.
      serve (New \<lparr>cfg_Backends = [''192.168.1.2:53'', ''192.168.1.3:53''], cfg_Timeout = 3,
                  cfg_FailBehavior = ''closed''\<rparr>)
        (replicate 3 (unreachable, 7, [1, 2])) = Inr (lb', outs) \<and>
      length (backends lb') = 2 \<and> list_all IsHealthy (backends lb')) \<and>
   Healthy (call_effect (CallRecordHealthCheck 1 False 1 2) (NewBackend ''192.168.1.2:53''))
     \<noteq> Healthy (NewBackend ''192.168.1.2:53'') \<and>
   (is_UpdateHealth (CallRecordHealthCheck 1 False 1 2) \<or>
    is_RecordHealthCheck (CallRecordHealthCheck 1 False 1 2))"
proof -
  let ?cfg = "\<lparr>cfg_Backends = [''192.168.1.2:53'', ''192.168.1.3:53''], cfg_Timeout = 3,
       cfg_FailBehavior = ''closed''\<rparr>"
  let ?reqs = "replicate 3 (unreachable, 7 :: nat, [1, 2 :: 8 word])"
  let ?c = "CallRecordHealthCheck 1 False 1 2"
  let ?b = "NewBackend ''192.168.1.2:53''"
  note t = forwarding_never_changes_health [where cfg = ?cfg and reqs = ?reqs and c = ?c and b = ?b]
  have l: "length (cfg_Backends ?cfg) < 2 ^ 32" by simp
  have h: "Healthy (call_effect ?c ?b) \<noteq> Healthy ?b"
    by (simp add: RecordHealthCheck_failure NewBackend_def)
  have "length (cfg_Backends ?cfg) < 2 ^ 32 \<longrightarrow>
      (\<exists>lb' outs. serve (New ?cfg) ?reqs = Inr (lb', outs) \<and>
         length (backends lb') = length (cfg_Backends ?cfg) \<and>
         (\<forall>b \<in> set (backends lb'). IsHealthy b))"
    using t by blast
  moreover have "Healthy (call_effect ?c ?b) \<noteq> Healthy ?b \<longrightarrow>
      is_UpdateHealth ?c \<or> is_RecordHealthCheck ?c"
    using t by blast
  ultimately show ?thesis using l h by (simp add: numeral_2_eq_2 list_all_iff)
qed

text \<open>
  \<open>UpdateHealth\<close> is not the health-check recording operation, and a call of it marks a
  new backend unhealthy.
\<close>

theorem update_health_sets_flag_counterexample:
  "Healthy (call_effect (CallUpdateHealth False) (NewBackend ''192.168.1.2:53''))
     \<noteq> Healthy (NewBackend ''192.168.1.2:53'') \<and>
   \<not> is_RecordHealthCheck (CallUpdateHealth False)"
  by (simp add: UpdateHealth_def NewBackend_def)

text \<open>
  Claim C6. When \<open>selectBackend\<close> returns \<open>nil\<close> for a request: with the policy
  \<open>closed\<close>, \<open>handleQuery\<close> returns normally, forwards to no backend, writes nothing to
  the client, and leaves every backend (so every \<open>TotalQueries\<close>) as it was; with the
  policy \<open>open\<close> and a backend configured, it returns normally after calling
  \<open>ForwardQuery\<close> on the first backend, whose \<open>TotalQueries\<close> grows by one while the
  other backends are untouched, and the client receives the backend's reply if the
  forward succeeded and nothing otherwise.
\<close>

theorem no_healthy_backend_policy:
  assumes "selectBackend lb = (lb1, probed, Inr None)"
  shows "(failBehavior lb = ''closed'' \<longrightarrow>
            handleQuery net now lb query =
              Inr (lb1, \<lparr>forwarded_to = None, client_reply = None\<rparr>) \<and>
            backends lb1 = backends lb) \<and>
         (failBehavior lb = ''open'' \<and> backends lb \<noteq> [] \<longrightarrow>
            (\<exists>lb' out. handleQuery net now lb query = Inr (lb', out) \<and>
               forwarded_to out = Some 0 \<and>
               backends lb' =
                 (backends lb)[0 := fst (ForwardQuery net now (backends lb ! 0) query (timeout lb))] \<and>
               TotalQueries (backends lb' ! 0) = TotalQueries (backends lb ! 0) + 1 \<and>
               drop 1 (backends lb') = drop 1 (backends lb) \<and>
               client_reply out =
                 (case snd (ForwardQuery net now (backends lb ! 0) query (timeout lb)) of
                    Inl err \<Rightarrow> None
                  | Inr response \<Rightarrow> Some response)))"
proof -
  note f = selectBackend_frame [OF assms]
  have closed: "handleQuery net now lb query =
        Inr (lb1, \<lparr>forwarded_to = None, client_reply = None\<rparr>) \<and> backends lb1 = backends lb"
    if "failBehavior lb = ''closed''"
    using that f assms by (simp add: handleQuery_def)
  have "open": "\<exists>lb' out. handleQuery net now lb query = Inr (lb', out) \<and>
               forwarded_to out = Some 0 \<and>
               backends lb' =
                 (backends lb)[0 := fst (ForwardQuery net now (backends lb ! 0) query (timeout lb))] \<and>
               TotalQueries (backends lb' ! 0) = TotalQueries (backends lb ! 0) + 1 \<and>
               drop 1 (backends lb') = drop 1 (backends lb) \<and>
               client_reply out =
                 (case snd (ForwardQuery net now (backends lb ! 0) query (timeout lb)) of
                    Inl err \<Rightarrow> None
                  | Inr response \<Rightarrow> Some response)"
    if o: "failBehavior lb = ''open''" and ne: "backends lb \<noteq> []"
  proof -
    obtain b' r where fw: "ForwardQuery net now (backends lb ! 0) query (timeout lb) = (b', r)"
      by (cases "ForwardQuery net now (backends lb ! 0) query (timeout lb)")
    have tq: "TotalQueries b' = TotalQueries (backends lb ! 0) + 1"
      using fw by (auto simp add: ForwardQuery_cases Let_def split: if_splits)
    show ?thesis
      using o ne f assms fw tq
      by (cases r) (simp_all add: handleQuery_def Let_def)
  qed
  from closed "open" show ?thesis by blast
qed

theorem no_healthy_backend_policy_witness:
  "selectBackend
      \<lparr>backends = [(NewBackend ''192.168.1.2:53'')\<lparr>Healthy := False\<rparr>], currentIndex = 0,
        timeout = 3, failBehavior = ''closed''\<rparr>
     = (\<lparr>backends = [(NewBackend ''192.168.1.2:53'')\<lparr>Healthy := False\<rparr>], currentIndex = 1,
        timeout = 3, failBehavior = ''closed''\<rparr>, [0], Inr None) \<and>
   handleQuery unreachable 7
      \<lparr>backends = [(NewBackend ''192.168.1.2:53'')\<lparr>Healthy := False\<rparr>], currentIndex = 0,
        timeout = 3, failBehavior = ''closed''\<rparr> [1, 2]
     = Inr (\<lparr>backends = [(NewBackend ''192.168.1.2:53'')\<lparr>Healthy := False\<rparr>], currentIndex = 1,
        timeout = 3, failBehavior = ''closed''\<rparr>, \<lparr>forwarded_to = None, client_reply = None\<rparr>) \<and>
   selectBackend
      \<lparr>backends = [(NewBackend ''192.168.1.2:53'')\<lparr>Healthy := False\<rparr>], currentIndex = 0,
        timeout = 3, failBehavior = ''open''\<rparr>
     = (\<lparr>backends = [(NewBackend ''192.168.1.2:53'')\<lparr>Healthy := False\<rparr>], currentIndex = 1,
        timeout = 3, failBehavior = ''open''\<rparr>, [0], Inr None) \<and>
   (\<exists>lb' out.
      handleQuery unreachable 7
        \<lparr>backends = [(NewBackend ''192.168.1.2:53'')\<lparr>Healthy := False\<rparr>], currentIndex = 0,
          timeout = 3, failBehavior = ''open''\<rparr> [1, 2] = Inr (lb', out) \<and>
      forwarded_to out = Some 0 \<and> TotalQueries (backends lb' ! 0) = 1 \<and> client_reply out = None)"
proof -
  let ?c = "\<lparr>backends = [(NewBackend ''192.168.1.2:53'')\<lparr>Healthy := False\<rparr>], currentIndex = 0,
        timeout = 3, failBehavior = ''closed''\<rparr>"
  let ?o = "\<lparr>backends = [(NewBackend ''192.168.1.2:53'')\<lparr>Healthy := False\<rparr>], currentIndex = 0,
        timeout = 3, failBehavior = ''open''\<rparr>"
  have sc: "selectBackend ?c = (?c\<lparr>currentIndex := 1\<rparr>, [0], Inr None)"
    by (simp add: selectBackend_def selectLoop.simps IsHealthy_def NewBackend_def Let_def)
  have so: "selectBackend ?o = (?o\<lparr>currentIndex := 1\<rparr>, [0], Inr None)"
    by (simp add: selectBackend_def selectLoop.simps IsHealthy_def NewBackend_def Let_def)
  have fw: "ForwardQuery unreachable 7 ((NewBackend ''192.168.1.2:53'')\<lparr>Healthy := False\<rparr>) [1, 2] 3
     = ((NewBackend ''192.168.1.2:53'')\<lparr>Healthy := False, TotalQueries := 1, TotalFailures := 1,
          LastFail := 7\<rparr>, Inl ConnectFailed)"
    by (simp add: ForwardQuery_cases unreachable_def NewBackend_def)
  from no_healthy_backend_policy [OF sc, of unreachable 7 "[1, 2]"]
    no_healthy_backend_policy [OF so, of unreachable 7 "[1, 2]"] sc so fw
  show ?thesis by (auto simp add: NewBackend_def)
qed

section \<open>Two healthy backends\<close>

lemma unat_succ_mod2:
  "unat (c + 1 :: uint32) mod 2 = (unat c + 1) mod 2"
proof -
  have "unat (c + 1) = (unat c + 1) mod 2 ^ 32"
    by (simp add: unat_word_ariths)
  moreover have "(2 :: nat) dvd 2 ^ 32" by simp
  ultimately show ?thesis by (simp add: mod_mod_cancel)
qed

lemma select_two_healthy:
  assumes "length (backends lb) = 2" and "\<forall>b \<in> set (backends lb). Healthy b"
  shows "selectBackend lb =
           (lb\<lparr>currentIndex := currentIndex lb + 1\<rparr>, [(unat (currentIndex lb) + 1) mod 2],
            Inr (Some ((unat (currentIndex lb) + 1) mod 2)))"
proof -
  define idx where "idx = unat ((currentIndex lb + 1) mod (of_nat (length (backends lb)) :: uint32))"
  have i: "idx = (unat (currentIndex lb) + 1) mod 2"
    unfolding idx_def by (simp add: assms(1) unat_mod unat_succ_mod2)
  then have "idx < length (backends lb)" using assms(1) by simp
  then have h: "IsHealthy (backends lb ! idx)"
    using assms(2) by (simp add: IsHealthy_def)
  show ?thesis
    using h i assms(1)
    by (simp add: selectBackend_def selectLoop.simps [of _ _ 0] Let_def idx_def)
qed

lemma handleQuery_two_healthy:
  assumes "length (backends lb) = 2" and "\<forall>b \<in> set (backends lb). Healthy b"
  shows "\<exists>lb' out. handleQuery net now lb query = Inr (lb', out) \<and>
           forwarded_to out = Some ((unat (currentIndex lb) + 1) mod 2) \<and>
           currentIndex lb' = currentIndex lb + 1 \<and>
           length (backends lb') = 2 \<and> (\<forall>b \<in> set (backends lb'). Healthy b)"
proof -
  note s = select_two_healthy [OF assms]
  obtain lb' out where h: "handleQuery net now lb query = Inr (lb', out)"
    using handleQuery_no_panic [of lb net now query] assms(1) by auto
  from handleQuery_frame [OF h] have m: "map Healthy (backends lb') = map Healthy (backends lb)"
    by simp
  then have len: "length (backends lb') = 2"
    using assms(1) by (metis length_map)
  have all: "\<forall>b \<in> set (backends lb'). Healthy b"
  proof
    fix x assume "x \<in> set (backends lb')"
    then have "Healthy x \<in> set (map Healthy (backends lb'))" by simp
    then show "Healthy x" unfolding m using assms(2) by auto
  qed
  have "forwarded_to out = Some ((unat (currentIndex lb) + 1) mod 2) \<and>
        currentIndex lb' = currentIndex lb + 1"
    using h s by (auto simp add: handleQuery_def Let_def split: prod.splits sum.splits)
  with h len all show ?thesis by blast
qed

lemma serve_two_healthy:
  assumes "length (backends lb) = 2" and "\<forall>b \<in> set (backends lb). Healthy b"
  shows "\<exists>lb' outs. serve lb reqs = Inr (lb', outs) \<and>
           map forwarded_to outs =
             map (\<lambda>k. Some ((unat (currentIndex lb) + 1 + k) mod 2)) [0..<length reqs]"
  using assms
proof (induction reqs arbitrary: lb)
  case Nil
  then show ?case by simp
next
  case (Cons rq reqs)
  obtain net now query where rq: "rq = (net, now, query)" by (cases rq)
  from handleQuery_two_healthy [OF Cons.prems, of net now query] obtain lb1 out where
    h: "handleQuery net now lb query = Inr (lb1, out)"
    and f: "forwarded_to out = Some ((unat (currentIndex lb) + 1) mod 2)"
    and c: "currentIndex lb1 = currentIndex lb + 1"
    and l: "length (backends lb1) = 2" and a: "\<forall>b \<in> set (backends lb1). Healthy b"
    by blast
  from Cons.IH [OF l a] obtain lb2 outs where
    s: "serve lb1 reqs = Inr (lb2, outs)"
    and m: "map forwarded_to outs =
             map (\<lambda>k. Some ((unat (currentIndex lb1) + 1 + k) mod 2)) [0..<length reqs]"
    by blast
  have e: "(unat (currentIndex lb + 1) + 1 + k) mod 2 = (unat (currentIndex lb) + 1 + Suc k) mod 2" for k
    using unat_succ_mod2 [of "currentIndex lb"] by presburger
  have "map (\<lambda>k. Some ((unat (currentIndex lb) + 1 + k) mod 2)) [0..<length (rq # reqs)]
      = Some ((unat (currentIndex lb) + 1) mod 2)
        # map (\<lambda>k. Some ((unat (currentIndex lb) + 1 + Suc k) mod 2)) [0..<length reqs]"
    by (simp add: upt_rec [of 0] map_Suc_upt [symmetric] del: upt_Suc)
  also have "\<dots> = Some ((unat (currentIndex lb) + 1) mod 2)
        # map (\<lambda>k. Some ((unat (currentIndex lb + 1) + 1 + k) mod 2)) [0..<length reqs]"
    by (simp only: e)
  also have "\<dots> = forwarded_to out # map forwarded_to outs"
    by (simp only: m c f)
  finally show ?case
    unfolding rq using h s by simp
qed

text \<open>
  Claim C4, as amended. With exactly two backends configured and no health check
  recorded, 100 requests handled one after the other on a load balancer made by \<open>New\<close>
  are each forwarded, in strict alternation starting with the second configured backend:
  request \<open>k\<close> (counted from 0) goes to \<open>backends[(k + 1) mod 2]\<close>, that is
  \<open>backends[1]\<close>, \<open>backends[0]\<close>, \<open>backends[1]\<close>, \<open>backends[0]\<close>, and so on, with
  no skips, whatever the network does to the forwards.
\<close>

theorem two_backends_alternate:
  assumes "cfg_Backends cfg = [B1, B2]" and "length reqs = 100"
  shows "\<exists>lb' outs. serve (New cfg) reqs = Inr (lb', outs) \<and>
           map forwarded_to outs = map (\<lambda>k. Some ((k + 1) mod 2)) [0..<100] \<and>
           map forwarded_to outs = concat (replicate 50 [Some 1, Some 0])"
proof -
  have l: "length (backends (New cfg)) = 2" and a: "\<forall>b \<in> set (backends (New cfg)). Healthy b"
    using assms(1) by (simp_all add: New_def NewBackend_def)
  from serve_two_healthy [OF l a, of reqs] obtain lb' outs where
    s: "serve (New cfg) reqs = Inr (lb', outs)"
    and m: "map forwarded_to outs = map (\<lambda>k. Some ((k + 1) mod 2)) [0..<100]"
    using assms(2) by (auto simp add: New_def)
  have "map (\<lambda>k. Some ((k + 1) mod 2)) [0..<100] = concat (replicate 50 [Some 1, Some (0::nat)])"
    by code_simp
  with s m show ?thesis by auto
qed

theorem two_backends_alternate_witness:
  "cfg_Backends \<lparr>cfg_Backends = [''192.168.1.2:53'', ''192.168.1.3:53''], cfg_Timeout = 3,
       cfg_FailBehavior = ''closed''\<rparr> = [''192.168.1.2:53'', ''192.168.1.3:53''] \<and>
   length (replicate 100 (unreachable, 7 :: nat, [1, 2 :: 8 word])) = 100 \<and>
   (\<exists>lb' outs.
      serve (New \<lparr>cfg_Backends = [''192.168.1.2:53'', ''192.168.1.3:53''], cfg_Timeout = 3,
                  cfg_FailBehavior = ''closed''\<rparr>)
        (replicate 100 (unreachable, 7, [1, 2])) = Inr (lb', outs) \<and>
      map forwarded_to outs = concat (replicate 50 [Some 1, Some 0]))"
proof -
  let ?cfg = "\<lparr>cfg_Backends = [''192.168.1.2:53'', ''192.168.1.3:53''], cfg_Timeout = 3,
       cfg_FailBehavior = ''closed''\<rparr>"
  have a: "cfg_Backends ?cfg = [''192.168.1.2:53'', ''192.168.1.3:53'']" by simp
  have b: "length (replicate 100 (unreachable, 7 :: nat, [1, 2 :: 8 word])) = 100" by simp
  from two_backends_alternate [OF a b] a b show ?thesis by blast
qed

text \<open>
  The run of 100 requests against two backends that refuse every connection: the cursor
  is 0 at the start and is incremented before it is used, so the first request goes to
  \<open>backends[1]\<close>, not to \<open>backends[0]\<close>.
\<close>

theorem first_request_goes_to_second_backend_counterexample:
  "serve (New \<lparr>cfg_Backends = [''192.168.1.2:53'', ''192.168.1.3:53''], cfg_Timeout = 3,
                cfg_FailBehavior = ''closed''\<rparr>)
     (replicate 100 (unreachable, 7, [1, 2]))
   = Inr (\<lparr>backends =
             [(NewBackend ''192.168.1.2:53'')\<lparr>LastFail := 7, TotalQueries := 50, TotalFailures := 50\<rparr>,
              (NewBackend ''192.168.1.3:53'')\<lparr>LastFail := 7, TotalQueries := 50, TotalFailures := 50\<rparr>],
           currentIndex = 100, timeout = 3, failBehavior = ''closed''\<rparr>,
          concat (replicate 50 [\<lparr>forwarded_to = Some 1, client_reply = None\<rparr>,
                                \<lparr>forwarded_to = Some 0, client_reply = None\<rparr>]))
   \<and> map forwarded_to (concat (replicate 50 [\<lparr>forwarded_to = Some 1, client_reply = None\<rparr>,
                                \<lparr>forwarded_to = Some 0, client_reply = None\<rparr>]))
       \<noteq> concat (replicate 50 [Some 0, Some 1])"
  by code_simp

end
